theory Spec2Isabelle
  imports
    Main
    "HOL-Library.Sublist"
    "HOL-Library.Char_ord"
    "HOL-Library.List_Lexorder"
    "HOL-Library.Multiset"
begin

section \<open>Python string operations used by main.py\<close>

text \<open>
  Python strings are modelled as \<open>string\<close> (lists of characters). The operations below
  are the ones main.py applies to directory names and version strings: \<open>str.split\<close> with
  a one-character separator, \<open>str.startswith\<close> (\<open>prefix\<close> of HOL-Library.Sublist), the
  substring test \<open>sub in s\<close>, \<open>str.lower\<close> and \<open>str.replace\<close>. Letter case is ASCII.
\<close>

text \<open>\<open>s.split(c)\<close>: the segments of \<open>s\<close> between the occurrences of \<open>c\<close>; never empty.\<close>

fun split_on :: "char \<Rightarrow> string \<Rightarrow> string list" where
  "split_on c [] = [[]]"
| "split_on c (x # xs) =
     (if x = c then [] # split_on c xs
      else (case split_on c xs of
              [] \<Rightarrow> [[x]]
            | p # ps \<Rightarrow> (x # p) # ps))"

text \<open>\<open>s.split(c, 1)\<close>: at most one split, at the first occurrence of \<open>c\<close>.\<close>

definition split_once :: "char \<Rightarrow> string \<Rightarrow> string list" where
  "split_once c s =
     (if c \<in> set s then [takeWhile (\<lambda>x. x \<noteq> c) s, tl (dropWhile (\<lambda>x. x \<noteq> c) s)]
      else [s])"

text \<open>\<open>sub in s\<close>: \<open>sub\<close> occurs in \<open>s\<close> as a contiguous block.\<close>

fun str_contains :: "string \<Rightarrow> string \<Rightarrow> bool" where
  "str_contains sub [] = (sub = [])"
| "str_contains sub (x # xs) = (prefix sub (x # xs) \<or> str_contains sub xs)"

definition lower_char :: "char \<Rightarrow> char" where
  "lower_char c =
     (case map_of (zip ''ABCDEFGHIJKLMNOPQRSTUVWXYZ'' ''abcdefghijklmnopqrstuvwxyz'') c of
        None \<Rightarrow> c
      | Some d \<Rightarrow> d)"

definition lower :: "string \<Rightarrow> string" where
  "lower s = map lower_char s"

text \<open>\<open>s.replace(old, new)\<close> for a non-empty \<open>old\<close>: leftmost occurrences, not overlapping.\<close>

fun replace_fuel :: "nat \<Rightarrow> string \<Rightarrow> string \<Rightarrow> string \<Rightarrow> string" where
  "replace_fuel 0 old new s = s"
| "replace_fuel (Suc n) old new [] = []"
| "replace_fuel (Suc n) old new (x # xs) =
     (if prefix old (x # xs) then new @ replace_fuel n old new (drop (length old) (x # xs))
      else x # replace_fuel n old new xs)"

definition replace :: "string \<Rightarrow> string \<Rightarrow> string \<Rightarrow> string" where
  "replace old new s = (if old = [] then s else replace_fuel (length s) old new s)"

section \<open>Server types and directory names\<close>

datatype ServerType = VANILLA | FORGE | FABRIC | NEOFORGE

text \<open>\<open>stype.name\<close> of the enum.\<close>

fun stype_name :: "ServerType \<Rightarrow> string" where
  "stype_name VANILLA = ''VANILLA''"
| "stype_name FORGE = ''FORGE''"
| "stype_name FABRIC = ''FABRIC''"
| "stype_name NEOFORGE = ''NEOFORGE''"

text \<open>How an f-string renders an \<open>Optional[str]\<close>.\<close>

fun fmt_opt :: "string option \<Rightarrow> string" where
  "fmt_opt None = ''None''"
| "fmt_opt (Some s) = s"

text \<open>
  \<open>MinecraftManager._get_server_dir_name\<close>. The mod version is cut to its last
  \<open>-\<close>-separated segment when it is a non-empty string containing \<open>-\<close>.
\<close>

definition mod_version_sanitized :: "string option \<Rightarrow> string option" where
  "mod_version_sanitized mod_version =
     (case mod_version of
        None \<Rightarrow> None
      | Some m \<Rightarrow> (if m \<noteq> [] \<and> CHR ''-'' \<in> set m then Some (last (split_on CHR ''-'' m))
                   else Some m))"

definition get_server_dir_name :: "ServerType \<Rightarrow> string \<Rightarrow> string option \<Rightarrow> string" where
  "get_server_dir_name stype mc_version mod_version =
     (if stype = VANILLA then mc_version
      else mc_version @ ''-'' @ lower (stype_name stype) @ ''-''
             @ fmt_opt (mod_version_sanitized mod_version))"

text \<open>\<open>MinecraftManager._infer_server_type\<close>: three substring tests, in this order.\<close>

definition infer_server_type :: "string \<Rightarrow> ServerType" where
  "infer_server_type dir_name =
     (let name = lower dir_name in
      if str_contains ''-forge-'' name then FORGE
      else if str_contains ''-fabric-'' name then FABRIC
      else if str_contains ''-neoforge-'' name then NEOFORGE
      else VANILLA)"

text \<open>\<open>MinecraftManager._infer_mc_version\<close>: \<open>dir_name.split('-')[0]\<close>.\<close>

definition infer_mc_version :: "string \<Rightarrow> string" where
  "infer_mc_version dir_name = hd (split_on CHR ''-'' dir_name)"

section \<open>Exceptions\<close>

text \<open>
  The Python exceptions that main.py raises, catches or lets through, as values. The
  predicates below are the class tests of its \<open>except\<close> clauses (an exception is caught by
  a clause naming one of its base classes): \<open>requests.RequestException\<close> derives from
  \<open>IOError\<close>, which is \<open>OSError\<close>; \<open>RequestsJSONDecodeError\<close> stands for
  \<open>requests.exceptions.JSONDecodeError\<close>, which derives from both
  \<open>requests.RequestException\<close> and \<open>json.JSONDecodeError\<close>, and \<open>JSONDecodeError\<close> for
  \<open>json.JSONDecodeError\<close> itself, which is no \<open>RequestException\<close>;
  \<open>subprocess.TimeoutExpired\<close> and \<open>subprocess.CalledProcessError\<close> derive from
  \<open>subprocess.SubprocessError\<close>.
\<close>

datatype py_exn =
    ConnectionError
  | Timeout
  | HTTPError nat
  | RequestsJSONDecodeError
  | JSONDecodeError
  | ParseError
  | FileNotFoundError
  | PermissionError
  | BrokenPipeError
  | CalledProcessError
  | TimeoutExpired
  | UnicodeDecodeError
  | AttributeError
  | KeyError
  | TypeError
  | IndexError
  | LookupError
  | ValueError
  | RecursionError
  | IOError

fun is_RequestException :: "py_exn \<Rightarrow> bool" where
  "is_RequestException ConnectionError = True"
| "is_RequestException Timeout = True"
| "is_RequestException (HTTPError _) = True"
| "is_RequestException RequestsJSONDecodeError = True"
| "is_RequestException _ = False"

fun is_JSONDecodeError :: "py_exn \<Rightarrow> bool" where
  "is_JSONDecodeError RequestsJSONDecodeError = True"
| "is_JSONDecodeError JSONDecodeError = True"
| "is_JSONDecodeError _ = False"

fun is_OSError :: "py_exn \<Rightarrow> bool" where
  "is_OSError FileNotFoundError = True"
| "is_OSError PermissionError = True"
| "is_OSError BrokenPipeError = True"
| "is_OSError IOError = True"
| "is_OSError e = is_RequestException e"

section \<open>Java discovery\<close>

subsection \<open>Parsing the output of \<open>java -version\<close>\<close>

definition is_digit :: "char \<Rightarrow> bool" where
  "is_digit c = (c \<in> set ''0123456789'')"

text \<open>\<open>re.findall(r'\d+', s)\<close>: the maximal runs of digits of \<open>s\<close>, left to right.\<close>

fun digit_runs :: "string \<Rightarrow> string \<Rightarrow> string list" where
  "digit_runs cur [] = (if cur = [] then [] else [cur])"
| "digit_runs cur (x # xs) =
     (if is_digit x then digit_runs (cur @ [x]) xs
      else if cur = [] then digit_runs [] xs
      else cur # digit_runs [] xs)"

definition findall_digits :: "string \<Rightarrow> string list" where
  "findall_digits s = digit_runs [] s"

text \<open>\<open>int(s)\<close> on a run of digits.\<close>

definition digit_value :: "char \<Rightarrow> int" where
  "digit_value c = int (of_char c) - 48"

definition int_of_digits :: "string \<Rightarrow> int" where
  "int_of_digits s = foldl (\<lambda>a c. 10 * a + digit_value c) 0 s"

text \<open>\<open>str(n)\<close> for an integer.\<close>

fun str_of_nat :: "nat \<Rightarrow> string" where
  "str_of_nat n =
     (if n < 10 then [char_of (48 + n)]
      else str_of_nat (n div 10) @ [char_of (48 + n mod 10)])"

declare str_of_nat.simps [simp del]

definition str_of_int :: "int \<Rightarrow> string" where
  "str_of_int i = (if i < 0 then CHR ''-'' # str_of_nat (nat (- i)) else str_of_nat (nat i))"

text \<open>
  The major-version derivation of \<open>JavaFinder.get_java_details\<close>: \<open>0\<close> when the version
  string has no digits; when the first run of digits is the string \<open>1\<close>, the second run
  (\<open>8\<close> when there is none); otherwise the first run.
\<close>

definition derive_major_version :: "string \<Rightarrow> int" where
  "derive_major_version version_str =
     (case findall_digits version_str of
        [] \<Rightarrow> 0
      | p # ps \<Rightarrow>
          (if p = ''1'' then (case ps of [] \<Rightarrow> 8 | q # _ \<Rightarrow> int_of_digits q)
           else int_of_digits p))"

text \<open>
  \<open>re.search(r'version "([^"]+)"', output)\<close>: at the leftmost position where the literal
  text is followed by one or more characters other than a double quote and then a double
  quote, the characters in between.
\<close>

definition dquote :: char where
  "dquote = CHR 0x22"

definition quoted_token :: "string \<Rightarrow> string option" where
  "quoted_token r =
     (let v = takeWhile (\<lambda>x. x \<noteq> dquote) r; rest = dropWhile (\<lambda>x. x \<noteq> dquote) r
      in if v \<noteq> [] \<and> rest \<noteq> [] then Some v else None)"

definition version_at :: "string \<Rightarrow> string option" where
  "version_at s =
     (let lit = ''version '' @ [dquote]
      in if prefix lit s then quoted_token (drop (length lit) s) else None)"

fun search_version :: "string \<Rightarrow> string option" where
  "search_version [] = None"
| "search_version (x # xs) =
     (case version_at (x # xs) of Some v \<Rightarrow> Some v | None \<Rightarrow> search_version xs)"

text \<open>
  The fallback \<open>re.search(r'(?:openjdk|java) version "([^"]+)"', output, re.IGNORECASE)\<close>.
\<close>

definition version_at_nocase :: "string \<Rightarrow> string option" where
  "version_at_nocase s =
     (let l1 = ''openjdk version '' @ [dquote]; l2 = ''java version '' @ [dquote]
      in if prefix l1 (lower (take (length l1) s)) then quoted_token (drop (length l1) s)
         else if prefix l2 (lower (take (length l2) s)) then quoted_token (drop (length l2) s)
         else None)"

fun search_version_nocase :: "string \<Rightarrow> string option" where
  "search_version_nocase [] = None"
| "search_version_nocase (x # xs) =
     (case version_at_nocase (x # xs) of
        Some v \<Rightarrow> Some v
      | None \<Rightarrow> search_version_nocase xs)"

definition version_match :: "string \<Rightarrow> string option" where
  "version_match output =
     (case search_version output of
        Some v \<Rightarrow> Some v
      | None \<Rightarrow> search_version_nocase output)"

text \<open>The vendor: the first marker found in the lower-cased output.\<close>

definition detect_vendor :: "string \<Rightarrow> string" where
  "detect_vendor output =
     (let output_lower = lower output in
      if str_contains ''zulu'' output_lower then ''Zulu''
      else if str_contains ''temurin'' output_lower then ''Eclipse Temurin''
      else if str_contains ''graalvm'' output_lower then ''GraalVM''
      else if str_contains ''oracle corporation'' output_lower
              \<or> (str_contains ''java(tm) se'' output_lower
                  \<and> \<not> str_contains ''openjdk'' output_lower) then ''Oracle''
      else if str_contains ''openjdk'' output_lower then ''OpenJDK''
      else ''Unknown'')"

definition sanitize_vendor :: "string \<Rightarrow> string" where
  "sanitize_vendor vendor = replace ''eclipse'' '''' (replace '' '' '''' (lower vendor))"

subsection \<open>Installations and candidates\<close>

text \<open>
  A resolved path is the list of its parts (\<open>Path.parts\<close>), the root \<open>/\<close> first.
  \<open>Path.parent\<close> drops the last part; the root is its own parent.
\<close>

type_synonym path = "string list"

definition parent :: "path \<Rightarrow> path" where
  "parent p = (if length p \<le> 1 then p else butlast p)"

record JavaInstallation =
  java_home :: path
  java_type :: string
  version :: string
  vendor :: string
  major_version :: int
  display_alias :: string
  path_depth :: nat

text \<open>
  What the finder observes of one candidate executable: whether it is a regular file
  with the execute permission, what running it with \<open>-version\<close> gives (an exception or
  the combined output), the parts of its symlink-resolved path, and whether a \<open>javac\<close>
  lies in the \<open>bin\<close> directory of its install root.
\<close>

record candidate =
  usable :: bool
  run_result :: "py_exn + string"
  real_java_exe :: path
  has_javac :: bool

text \<open>
  \<open>JavaFinder.get_java_details\<close>. The three exceptions of its \<open>except\<close> clause give
  \<open>None\<close>; any other exception of the subprocess call propagates.
\<close>

definition get_java_details :: "candidate \<Rightarrow> py_exn + JavaInstallation option" where
  "get_java_details c =
     (case run_result c of
        Inl e \<Rightarrow>
          (if e = CalledProcessError \<or> e = TimeoutExpired \<or> e = FileNotFoundError
           then Inr None else Inl e)
      | Inr output \<Rightarrow>
          (case version_match output of
             None \<Rightarrow> Inr None
           | Some version_str \<Rightarrow>
               (let major = derive_major_version version_str;
                    vendor_name = detect_vendor output;
                    home = parent (parent (real_java_exe c))
                in Inr (Some \<lparr>java_home = home,
                              java_type = (if has_javac c then ''JDK'' else ''JRE''),
                              version = version_str,
                              vendor = vendor_name,
                              major_version = major,
                              display_alias = sanitize_vendor vendor_name @ str_of_int major,
                              path_depth = length (real_java_exe c)\<rparr>))))"

subsection \<open>The finder's loop\<close>

text \<open>
  \<open>sorted(xs, key=f, reverse=True)\<close>: descending by key, elements with equal keys in
  their original order.
\<close>

definition sorted_reverse :: "('a \<Rightarrow> 'k::linorder) \<Rightarrow> 'a list \<Rightarrow> 'a list" where
  "sorted_reverse f xs = rev (sort_key f (rev xs))"

text \<open>
  The state of the loop: the dictionary \<open>found_installations\<close> (in insertion order, as a
  Python dictionary keeps it) and the set \<open>processed_homes\<close>.
\<close>

type_synonym finder_state = "(string \<times> JavaInstallation) list \<times> path set"

text \<open>
  \<open>d[k] = v\<close> on an insertion-ordered dictionary: an existing key keeps its place, a
  new key goes last.
\<close>

fun dict_set :: "'k \<Rightarrow> 'v \<Rightarrow> ('k \<times> 'v) list \<Rightarrow> ('k \<times> 'v) list" where
  "dict_set k v [] = [(k, v)]"
| "dict_set k v (p # ps) = (if fst p = k then (k, v) # ps else p # dict_set k v ps)"

text \<open>The body of the loop once \<open>details\<close> is there.\<close>

definition record_details :: "finder_state \<Rightarrow> JavaInstallation \<Rightarrow> finder_state" where
  "record_details st details =
     (let found_installations = fst st; processed_homes = snd st in
      if java_home details \<in> processed_homes then st
      else
        (let homes = insert (java_home details) processed_homes in
         case map_of found_installations (display_alias details) of
           None \<Rightarrow> (dict_set (display_alias details) details found_installations, homes)
         | Some old \<Rightarrow>
             (if path_depth details < path_depth old
              then (dict_set (display_alias details) details found_installations, homes)
              else (found_installations, homes))))"

text \<open>
  One iteration: a candidate that is not a usable file is skipped, an \<open>OSError\<close> skips
  the candidate, any other exception leaves the loop.
\<close>

definition process_candidate :: "finder_state \<Rightarrow> candidate \<Rightarrow> py_exn + finder_state" where
  "process_candidate st c =
     (if \<not> usable c then Inr st
      else (case get_java_details c of
              Inl e \<Rightarrow> (if is_OSError e then Inr st else Inl e)
            | Inr None \<Rightarrow> Inr st
            | Inr (Some details) \<Rightarrow> Inr (record_details st details)))"

fun process_all :: "finder_state \<Rightarrow> candidate list \<Rightarrow> py_exn + finder_state" where
  "process_all st [] = Inr st"
| "process_all st (c # cs) =
     (case process_candidate st c of
        Inl e \<Rightarrow> Inl e
      | Inr st' \<Rightarrow> process_all st' cs)"

text \<open>
  \<open>JavaFinder.find_java_installations\<close>, from step 3 on. Steps 1 and 2 collect the set
  \<open>candidate_exes\<close> from the environment and the file system; the list given here is
  that set in the order the loop iterates it, which Python leaves open.
\<close>

definition find_java_installations :: "candidate list \<Rightarrow> py_exn + JavaInstallation list" where
  "find_java_installations candidate_exes =
     (case process_all ([], {}) candidate_exes of
        Inl e \<Rightarrow> Inl e
      | Inr st \<Rightarrow> Inr (sorted_reverse major_version (map snd (fst st))))"

text \<open>
  For stating what the finder keeps: the installations the probes give, in iteration
  order, and those of them that pass the deduplication by install root (for each
  \<open>java_home\<close>, the first one met).
\<close>

definition probed :: "candidate list \<Rightarrow> JavaInstallation list" where
  "probed cs =
     List.map_filter
       (\<lambda>c. if usable c then (case get_java_details c of Inr (Some d) \<Rightarrow> Some d | _ \<Rightarrow> None)
            else None) cs"

fun dedup_homes :: "path set \<Rightarrow> JavaInstallation list \<Rightarrow> JavaInstallation list" where
  "dedup_homes seen [] = []"
| "dedup_homes seen (d # ds) =
     (if java_home d \<in> seen then dedup_homes seen ds
      else d # dedup_homes (insert (java_home d) seen) ds)"

definition discovered :: "candidate list \<Rightarrow> JavaInstallation list" where
  "discovered cs = dedup_homes {} (probed cs)"

text \<open>The dictionary update of the loop body, without the bookkeeping of install roots.\<close>

definition keep_shallowest ::
  "(string \<times> JavaInstallation) list \<Rightarrow> JavaInstallation \<Rightarrow> (string \<times> JavaInstallation) list"
where
  "keep_shallowest found d =
     (case map_of found (display_alias d) of
        None \<Rightarrow> dict_set (display_alias d) d found
      | Some old \<Rightarrow>
          (if path_depth d < path_depth old then dict_set (display_alias d) d found
           else found))"

text \<open>
  What relates the dictionary to the set \<open>S\<close> of installations recorded so far: keys are
  distinct, each entry is filed under its own alias and comes from \<open>S\<close>, and each member
  of \<open>S\<close> has an entry under its alias that is at most as deep.
\<close>

definition alias_inv :: "(string \<times> JavaInstallation) list \<Rightarrow> JavaInstallation set \<Rightarrow> bool" where
  "alias_inv found S \<longleftrightarrow>
     distinct (map fst found)
     \<and> (\<forall>(k, v) \<in> set found. k = display_alias v \<and> v \<in> S)
     \<and> (\<forall>d \<in> S. \<exists>v. map_of found (display_alias d) = Some v \<and> path_depth v \<le> path_depth d)"

section \<open>Version catalogs\<close>

subsection \<open>Responses and decoded JSON\<close>

datatype json =
    JNull
  | JBool bool
  | JNumber int
  | JString string
  | JArray "json list"
  | JObject "(string \<times> json) list"

text \<open>
  What an adapter observes of a response: the status code; what \<open>response.json()\<close>
  returns or raises; and, for the Maven indices, what
  \<open>ET.fromstring(response.content)\<close> followed by \<open>root.findall(".//version")\<close> gives:
  the exception the parser raises, or the \<open>text\<close> of the nodes found, in document order
  (a node without text has the text \<open>None\<close>). The parsers raise \<open>JSONDecodeError\<close> and
  \<open>ParseError\<close> on most bodies they cannot read, and other exceptions on some (a
  \<open>RecursionError\<close> on deeply nested JSON, a \<open>LookupError\<close> or \<open>ValueError\<close> on some
  encoding declarations of an XML document).
\<close>

record response =
  status_code :: nat
  json_body :: "py_exn + json"
  xml_versions :: "py_exn + string option list"

text \<open>The outcome of \<open>_CLIENT.get(url, timeout=...)\<close>: an exception or a response.\<close>

type_synonym fetch = "py_exn + response"

text \<open>\<open>response.raise_for_status()\<close>: an \<open>HTTPError\<close> for the codes 400 to 599.\<close>

definition raise_for_status :: "response \<Rightarrow> py_exn + unit" where
  "raise_for_status r =
     (if 400 \<le> status_code r \<and> status_code r < 600 then Inl (HTTPError (status_code r))
      else Inr ())"

text \<open>
  Python on decoded JSON: \<open>x.get(key, default)\<close> (only dictionaries have it), \<open>x[key]\<close>
  with a string key, the iteration \<open>for item in x\<close> and the truth value of \<open>x\<close>.
\<close>

fun py_get :: "json \<Rightarrow> string \<Rightarrow> json \<Rightarrow> py_exn + json" where
  "py_get (JObject kvs) key dflt = (case map_of kvs key of None \<Rightarrow> Inr dflt | Some v \<Rightarrow> Inr v)"
| "py_get _ key dflt = Inl AttributeError"




subsection \<open>Mojang\<close>




text \<open>
  What a listing operation gives: the list it returns or the exception it raises, and
  the exception named in the error line it prints, if it prints one.
\<close>

type_synonym 'a listing = "(py_exn + 'a list) \<times> py_exn option"

text \<open>
  An \<open>except\<close> clause that prints an error line and returns the empty list: exceptions
  of the classes named are absorbed and reported, the others propagate.
\<close>

definition except_empty :: "(py_exn \<Rightarrow> bool) \<Rightarrow> py_exn + 'a list \<Rightarrow> 'a listing" where
  "except_empty caught result =
     (case result of
        Inl e \<Rightarrow> (if caught e then (Inr [], Some e) else (Inl e, None))
      | Inr vs \<Rightarrow> (Inr vs, None))"


subsection \<open>Forge\<close>

record ForgeVersion =
  full_version :: string
  forge_mc_version :: string
  forge_version :: string

text \<open>The body of the loop of \<open>get_forge_versions\<close> for the text of one node.\<close>

definition forge_version_of :: "string \<Rightarrow> string option \<Rightarrow> ForgeVersion option" where
  "forge_version_of mc text_of_node =
     (case text_of_node of
        None \<Rightarrow> None
      | Some full \<Rightarrow>
          (if full \<noteq> [] \<and> prefix (mc @ ''-'') full then
             (case split_once CHR ''-'' full of
                [p0, p1] \<Rightarrow> Some \<lparr>full_version = full, forge_mc_version = p0, forge_version = p1\<rparr>
              | _ \<Rightarrow> None)
           else None))"

text \<open>
  \<open>ApiClients.get_forge_versions\<close>; its clause names \<open>requests.RequestException\<close> and
  \<open>ET.ParseError\<close>.
\<close>

definition get_forge_versions :: "string \<Rightarrow> fetch \<Rightarrow> ForgeVersion listing" where
  "get_forge_versions mc got =
     except_empty (\<lambda>e. is_RequestException e \<or> e = ParseError)
       (case got of
          Inl e \<Rightarrow> Inl e
        | Inr r \<Rightarrow>
            (case raise_for_status r of
               Inl e \<Rightarrow> Inl e
             | Inr _ \<Rightarrow>
                 (case xml_versions r of
                    Inl e \<Rightarrow> Inl e
                  | Inr nodes \<Rightarrow>
                      Inr (sorted_reverse forge_version
                             (List.map_filter (forge_version_of mc) nodes)))))"

subsection \<open>Fabric\<close>




subsection \<open>NeoForge\<close>

record NeoForgeVersion =
  neo_full_version :: string
  neo_mc_version :: string
  neoforge_version :: string

text \<open>The body of the loop of \<open>get_neoforge_versions\<close> for the text of one node.\<close>

definition neoforge_version_of :: "string \<Rightarrow> string option \<Rightarrow> NeoForgeVersion option" where
  "neoforge_version_of mc_major_prefix text_of_node =
     (case text_of_node of
        None \<Rightarrow> None
      | Some full \<Rightarrow>
          (if full \<noteq> [] \<and> prefix (mc_major_prefix @ ''.'') full then
             Some \<lparr>neo_full_version = full,
                   neo_mc_version = ''1.'' @ hd (split_on CHR ''.'' full),
                   neoforge_version = full\<rparr>
           else None))"

text \<open>
  \<open>ApiClients.get_neoforge_versions\<close>: a base version with fewer than two
  dot-separated parts returns the empty list without any request (the fetch is made only
  past that test; here its outcome is an argument that this branch does not read).
\<close>

definition get_neoforge_versions :: "string \<Rightarrow> fetch \<Rightarrow> NeoForgeVersion listing" where
  "get_neoforge_versions mc got =
     (let mc_parts = split_on CHR ''.'' mc in
      if length mc_parts < 2 then (Inr [], None)
      else
        (let mc_major_prefix = mc_parts ! 1 in
         except_empty (\<lambda>e. is_RequestException e \<or> e = ParseError)
           (case got of
              Inl e \<Rightarrow> Inl e
            | Inr r \<Rightarrow>
                (case raise_for_status r of
                   Inl e \<Rightarrow> Inl e
                 | Inr _ \<Rightarrow>
                     (case xml_versions r of
                        Inl e \<Rightarrow> Inl e
                      | Inr nodes \<Rightarrow>
                          Inr (sorted_reverse neo_full_version
                                 (List.map_filter (neoforge_version_of mc_major_prefix)
                                    nodes)))))))"





text \<open>A fetch that succeeded with a well-formed version index.\<close>

definition index_fetched :: "fetch \<Rightarrow> string option list \<Rightarrow> bool" where
  "index_fetched got nodes =
     (case got of
        Inl e \<Rightarrow> False
      | Inr r \<Rightarrow>
          (status_code r < 400 \<or> 600 \<le> status_code r) \<and> xml_versions r = Inr nodes)"

text \<open>The non-empty texts among the nodes of an index.\<close>

definition index_entries :: "string option list \<Rightarrow> string list" where
  "index_entries nodes = filter (\<lambda>s. s \<noteq> []) (List.map_filter (\<lambda>t. t) nodes)"

section \<open>The saved Java of a server\<close>

text \<open>
  \<open>sep.join(parts)\<close>, and \<open>str(p)\<close> and \<open>Path(s)\<close> of pathlib on POSIX for a path given by
  its parts: empty and \<open>.\<close> segments vanish, a leading \<open>/\<close> is the root (exactly two
  leading slashes are kept as the root \<open>//\<close>), and the empty path prints as \<open>.\<close>.
\<close>

fun join_with :: "string \<Rightarrow> string list \<Rightarrow> string" where
  "join_with sep [] = []"
| "join_with sep [p] = p"
| "join_with sep (p # q # ps) = p @ sep @ join_with sep (q # ps)"

definition path_str :: "path \<Rightarrow> string" where
  "path_str p =
     (case p of
        [] \<Rightarrow> ''.''
      | r # ps \<Rightarrow> (if r = ''/'' \<or> r = ''//'' then r @ join_with ''/'' ps
                   else join_with ''/'' (r # ps)))"

definition path_of_str :: "string \<Rightarrow> path" where
  "path_of_str s =
     (if prefix ''//'' s \<and> \<not> prefix ''///'' s then [''//'']
      else if prefix ''/'' s then [''/'']
      else [])
     @ filter (\<lambda>seg. seg \<noteq> [] \<and> seg \<noteq> ''.'') (split_on CHR ''/'' s)"

text \<open>\<open>xs[i]\<close>: a negative index counts from the end, an index out of range raises.\<close>

definition py_index :: "'a list \<Rightarrow> int \<Rightarrow> py_exn + 'a" where
  "py_index xs i =
     (if 0 \<le> i \<and> i < int (length xs) then Inr (xs ! nat i)
      else if i < 0 \<and> 0 \<le> int (length xs) + i then Inr (xs ! nat (int (length xs) + i))
      else Inl IndexError)"

text \<open>
  What \<open>_select_java_for_version\<close> uses of its surroundings: \<open>json.loads\<close> (\<open>None\<close> when
  it raises \<open>JSONDecodeError\<close>), \<open>json.dumps(config, indent=2)\<close>, and the test
  \<open>p.is_file() and os.access(p, os.X_OK)\<close>.
\<close>

record select_env =
  json_loads :: "string \<Rightarrow> json option"
  json_dumps :: "json \<Rightarrow> string"
  executable_file :: "path \<Rightarrow> bool"

text \<open>
  The file \<open>java-path.json\<close> of the server directory: absent, or present with what
  \<open>read_text()\<close> gives (an exception or the text).
\<close>

type_synonym config_file = "(py_exn + string) option"

text \<open>What the operation does that the operator or the disk can see, in order.\<close>

datatype event = Menu_shown | Yes_no_asked | Directory_made | File_written string

text \<open>
  The first part of \<open>_select_java_for_version\<close>, the check of the saved configuration:
  it returns the saved executable, or goes on to the selection, or raises. Its
  \<open>except\<close> clause names \<open>json.JSONDecodeError\<close> and \<open>IOError\<close>.
\<close>

datatype saved = Use_saved string | Reselect | Raise py_exn

definition saved_java :: "select_env \<Rightarrow> config_file \<Rightarrow> saved" where
  "saved_java env file =
     (case file of
        None \<Rightarrow> Reselect
      | Some (Inl e) \<Rightarrow> (if is_JSONDecodeError e \<or> is_OSError e then Reselect else Raise e)
      | Some (Inr text) \<Rightarrow>
          (case json_loads env text of
             None \<Rightarrow> Reselect
           | Some config \<Rightarrow>
               (case py_get config ''javaPath'' (JString '''') of
                  Inl e \<Rightarrow> (if is_JSONDecodeError e \<or> is_OSError e then Reselect else Raise e)
                | Inr (JString s) \<Rightarrow>
                    (let java_exec = path_of_str s @ [''bin'', ''java''] in
                     if executable_file env java_exec then Use_saved (path_str java_exec)
                     else Reselect)
                | Inr _ \<Rightarrow> Raise TypeError)))"

text \<open>
  \<open>MinecraftManager._select_java_for_version\<close>. Arguments: the surroundings, the file
  \<open>java-path.json\<close>, the outcome of \<open>java_future.result()\<close>, what \<open>Utils.show_menu\<close>
  returns when called (\<open>-1\<close> for quitting) and what \<open>Utils.prompt_yes_no\<close> returns when
  called. Result: what the call returns or raises, the file afterwards, and the events.
\<close>

definition select_java_for_version ::
  "select_env \<Rightarrow> config_file \<Rightarrow> py_exn + JavaInstallation list \<Rightarrow> int \<Rightarrow> bool option
     \<Rightarrow> (py_exn + string option) \<times> config_file \<times> event list"
where
  "select_java_for_version env file java_future choice save_default =
     (case saved_java env file of
        Use_saved java_exec \<Rightarrow> (Inr (Some java_exec), file, [])
      | Raise e \<Rightarrow> (Inl e, file, [])
      | Reselect \<Rightarrow>
          (case java_future of
             Inl e \<Rightarrow> (Inl e, file, [])
           | Inr java_installations \<Rightarrow>
               (if java_installations = [] then (Inl IOError, file, [])
                else if choice = - 1 then (Inr None, file, [Menu_shown])
                else
                  (case py_index java_installations (choice - 1) of
                     Inl e \<Rightarrow> (Inl e, file, [Menu_shown])
                   | Inr selected_java \<Rightarrow>
                       (let java_path = path_str (java_home selected_java @ [''bin'', ''java''])
                        in if save_default = Some True then
                             (let text = json_dumps env
                                    (JObject [(''javaPath'',
                                               JString (path_str (java_home selected_java)))])
                              in (Inr (Some java_path), Some (Inr text),
                                  [Menu_shown, Yes_no_asked, Directory_made, File_written text]))
                           else (Inr (Some java_path), file, [Menu_shown, Yes_no_asked]))))))"

text \<open>Whether a list of events has a write of the file.\<close>

fun is_write :: "event \<Rightarrow> bool" where
  "is_write (File_written _) = True"
| "is_write _ = False"

definition wrote_file :: "event list \<Rightarrow> bool" where
  "wrote_file evs = list_ex is_write evs"

section \<open>The supervisor of a running server\<close>





















section \<open>Facts about the string operations\<close>

lemma split_on_not_Nil: "split_on c s \<noteq> []"
  by (induction s) (auto split: list.splits)

lemma hd_split_on: "hd (split_on c s) = takeWhile (\<lambda>x. x \<noteq> c) s"
  by (induction s) (auto split: list.splits simp: split_on_not_Nil)

lemma takeWhile_sep: "c \<notin> set a \<Longrightarrow> takeWhile (\<lambda>x. x \<noteq> c) (a @ c # r) = a"
  by (induction a) auto

lemma takeWhile_no_sep: "c \<notin> set a \<Longrightarrow> takeWhile (\<lambda>x. x \<noteq> c) a = a"
  by (induction a) auto

lemma split_on_segments: "p \<in> set (split_on c s) \<Longrightarrow> c \<notin> set p"
proof (induction s arbitrary: p)
  case Nil
  then show ?case by simp
next
  case (Cons x xs)
  show ?case
  proof (cases "x = c")
    case True
    with Cons show ?thesis by auto
  next
    case False
    obtain q qs where q: "split_on c xs = q # qs"
      using split_on_not_Nil [of c xs] by (cases "split_on c xs") auto
    with Cons.prems False have "p = x # q \<or> p \<in> set qs" by auto
    then show ?thesis
    proof
      assume "p = x # q"
      moreover have "c \<notin> set q" using Cons.IH [of q] q by simp
      ultimately show ?thesis using False by auto
    next
      assume "p \<in> set qs"
      then show ?thesis using Cons.IH [of p] q by simp
    qed
  qed
qed

lemma last_split_on_no_sep: "c \<notin> set (last (split_on c s))"
  using split_on_segments [of "last (split_on c s)" c s] split_on_not_Nil [of c s]
  by simp

lemma str_contains_skip:
  "c \<notin> set a \<Longrightarrow> str_contains (c # k) (a @ r) = str_contains (c # k) r"
  by (induction a) auto

lemma str_contains_no_sep: "c \<notin> set b \<Longrightarrow> \<not> str_contains (c # k) b"
  using str_contains_skip [of c b k "[]"] by simp

lemma lower_char_dash: "(lower_char x = CHR ''-'') = (x = CHR ''-'')"
  by (simp add: lower_char_def)

lemma lower_no_dash: "CHR ''-'' \<notin> set s \<Longrightarrow> CHR ''-'' \<notin> set (lower s)"
proof
  assume a: "CHR ''-'' \<notin> set s" and "CHR ''-'' \<in> set (lower s)"
  then obtain x where "x \<in> set s" and "lower_char x = CHR ''-''"
    by (auto simp: lower_def)
  with a show False by (simp add: lower_char_dash)
qed

lemma lower_append: "lower (a @ b) = lower a @ lower b"
  by (simp add: lower_def)

lemma sanitized_no_dash:
  "CHR ''-'' \<notin> set (fmt_opt (mod_version_sanitized mod_version))"
  by (cases mod_version) (auto simp: mod_version_sanitized_def last_split_on_no_sep)

section \<open>Round trips between directory names and what they encode\<close>

text \<open>
  C10. Base-version round trip: when the base-game version contains no \<open>-\<close>, the
  version inferred from the generated directory name is the base version used at
  install time, for every server type and every mod-loader version.
\<close>

theorem infer_mc_version_roundtrip:
  assumes "CHR ''-'' \<notin> set mc_version"
  shows "infer_mc_version (get_server_dir_name stype mc_version mod_version) = mc_version"
proof (cases "stype = VANILLA")
  case True
  with assms show ?thesis
    by (simp add: infer_mc_version_def get_server_dir_name_def hd_split_on takeWhile_no_sep)
next
  case False
  have "takeWhile (\<lambda>x. x \<noteq> CHR ''-'') (mc_version @ CHR ''-'' # r) = mc_version" for r
    using assms by (rule takeWhile_sep)
  with False show ?thesis
    by (simp add: infer_mc_version_def get_server_dir_name_def hd_split_on)
qed

theorem infer_mc_version_roundtrip_witness:
  "CHR ''-'' \<notin> set ''1.20.1''
   \<and> get_server_dir_name FORGE ''1.20.1'' (Some ''1.20.1-47.2.0'') = ''1.20.1-forge-47.2.0''
   \<and> infer_mc_version (get_server_dir_name FORGE ''1.20.1'' (Some ''1.20.1-47.2.0''))
       = ''1.20.1''"
proof -
  have h: "CHR ''-'' \<notin> set ''1.20.1''" by simp
  have n: "get_server_dir_name FORGE ''1.20.1'' (Some ''1.20.1-47.2.0'') = ''1.20.1-forge-47.2.0''"
    by (simp add: get_server_dir_name_def mod_version_sanitized_def lower_def lower_char_def)
  show ?thesis
    using h n infer_mc_version_roundtrip [OF h, of FORGE "Some ''1.20.1-47.2.0''"] by simp
qed

lemma prefix_no_sep: "c \<in> set p \<Longrightarrow> c \<notin> set b \<Longrightarrow> \<not> prefix p b"
  using set_mono_prefix by fastforce

lemma lower_names:
  "lower (stype_name FORGE) = ''forge''"
  "lower (stype_name FABRIC) = ''fabric''"
  "lower (stype_name NEOFORGE) = ''neoforge''"
  by (simp_all add: lower_def lower_char_def)

lemma lower_dash: "lower (a @ CHR ''-'' # b) = lower a @ CHR ''-'' # lower b"
  by (simp add: lower_def lower_char_def)

lemma contains_after_channel:
  assumes "CHR ''-'' \<notin> set b"
  shows "str_contains ''-forge-'' (''-forge-'' @ b)"
    and "\<not> str_contains ''-forge-'' (''-fabric-'' @ b)"
    and "str_contains ''-fabric-'' (''-fabric-'' @ b)"
    and "\<not> str_contains ''-forge-'' (''-neoforge-'' @ b)"
    and "\<not> str_contains ''-fabric-'' (''-neoforge-'' @ b)"
    and "str_contains ''-neoforge-'' (''-neoforge-'' @ b)"
  using assms str_contains_no_sep [of "CHR ''-''" b] prefix_no_sep [of "CHR ''-''" _ b]
  by simp_all

lemma dir_name_shape:
  "stype \<noteq> VANILLA \<Longrightarrow>
   get_server_dir_name stype mc_version mod_version
     = mc_version @ CHR ''-'' # lower (stype_name stype) @ CHR ''-''
         # fmt_opt (mod_version_sanitized mod_version)"
  by (simp add: get_server_dir_name_def)

text \<open>
  C2 (as amended). Channel round trip: when the base-game version contains no \<open>-\<close>,
  the server type inferred from the generated directory name is the server type used at
  install time, for every server type (NeoForge included) and every mod-loader version.
\<close>

theorem infer_server_type_roundtrip:
  assumes "CHR ''-'' \<notin> set mc_version"
  shows "infer_server_type (get_server_dir_name stype mc_version mod_version) = stype"
proof -
  let ?suf = "fmt_opt (mod_version_sanitized mod_version)"
  have mc: "CHR ''-'' \<notin> set (lower mc_version)"
    using assms by (rule lower_no_dash)
  have suf: "CHR ''-'' \<notin> set (lower ?suf)"
    using sanitized_no_dash by (rule lower_no_dash)
  have skip: "str_contains (CHR ''-'' # k) (lower mc_version @ r) = str_contains (CHR ''-'' # k) r"
    for k r using mc by (rule str_contains_skip)
  show ?thesis
  proof (cases stype)
    case VANILLA
    then show ?thesis
      using str_contains_no_sep [OF mc]
      by (simp add: infer_server_type_def get_server_dir_name_def)
  next
    case FORGE
    have "lower (get_server_dir_name stype mc_version mod_version)
          = lower mc_version @ ''-forge-'' @ lower ?suf"
      using FORGE dir_name_shape [of stype mc_version mod_version]
      by (simp add: lower_def lower_char_def)
    then show ?thesis
      using FORGE contains_after_channel [OF suf] skip
      by (simp add: infer_server_type_def)
  next
    case FABRIC
    have "lower (get_server_dir_name stype mc_version mod_version)
          = lower mc_version @ ''-fabric-'' @ lower ?suf"
      using FABRIC dir_name_shape [of stype mc_version mod_version]
      by (simp add: lower_def lower_char_def)
    then show ?thesis
      using FABRIC contains_after_channel [OF suf] skip
      by (simp add: infer_server_type_def)
  next
    case NEOFORGE
    have "lower (get_server_dir_name stype mc_version mod_version)
          = lower mc_version @ ''-neoforge-'' @ lower ?suf"
      using NEOFORGE dir_name_shape [of stype mc_version mod_version]
      by (simp add: lower_def lower_char_def)
    then show ?thesis
      using NEOFORGE contains_after_channel [OF suf] skip
      by (simp add: infer_server_type_def)
  qed
qed

theorem infer_server_type_roundtrip_witness:
  "CHR ''-'' \<notin> set ''1.21.1''
   \<and> get_server_dir_name NEOFORGE ''1.21.1'' (Some ''21.1.77'') = ''1.21.1-neoforge-21.1.77''
   \<and> infer_server_type (get_server_dir_name NEOFORGE ''1.21.1'' (Some ''21.1.77'')) = NEOFORGE"
proof -
  have h: "CHR ''-'' \<notin> set ''1.21.1''" by simp
  have n: "get_server_dir_name NEOFORGE ''1.21.1'' (Some ''21.1.77'') = ''1.21.1-neoforge-21.1.77''"
    by (simp add: get_server_dir_name_def mod_version_sanitized_def lower_def lower_char_def)
  show ?thesis
    using h n infer_server_type_roundtrip [OF h, of NEOFORGE "Some ''21.1.77''"] by simp
qed

text \<open>
  Without that hypothesis the round trip fails: a base version that itself contains
  \<open>-forge-\<close> makes a Fabric directory name read as Forge.
\<close>

theorem infer_server_type_counterexample:
  "get_server_dir_name FABRIC ''1.20-forge-1'' (Some ''0.15.11'') = ''1.20-forge-1-fabric-0.15.11''
   \<and> infer_server_type (get_server_dir_name FABRIC ''1.20-forge-1'' (Some ''0.15.11'')) = FORGE
   \<and> infer_server_type (get_server_dir_name FABRIC ''1.20-forge-1'' (Some ''0.15.11''))
       \<noteq> FABRIC"
  by (simp add: infer_server_type_def get_server_dir_name_def mod_version_sanitized_def
      lower_def lower_char_def)

section \<open>The major version of a Java installation\<close>









section \<open>What the Java finder keeps\<close>

lemma map_of_dict_set: "map_of (dict_set k v al) = (map_of al)(k \<mapsto> v)"
  by (induction al) (auto simp: fun_eq_iff)

lemma keys_dict_set: "fst ` set (dict_set k v al) = insert k (fst ` set al)"
  by (induction al) auto

lemma distinct_dict_set:
  "distinct (map fst al) \<Longrightarrow> distinct (map fst (dict_set k v al))"
proof (induction al)
  case Nil
  then show ?case by simp
next
  case (Cons p ps)
  have "fst p \<noteq> k \<Longrightarrow> fst p \<notin> fst ` set (dict_set k v ps)"
    using Cons.prems by (simp add: keys_dict_set)
  with Cons show ?case by auto
qed

lemma set_dict_set: "set (dict_set k v al) \<subseteq> insert (k, v) (set al)"
  by (induction al) auto

lemma record_details_eq:
  "record_details (found, homes) d =
     (if java_home d \<in> homes then (found, homes)
      else (keep_shallowest found d, insert (java_home d) homes))"
  by (simp add: record_details_def keep_shallowest_def split: option.splits)

lemma foldl_record_details:
  "fst (foldl record_details (found, homes) ds)
     = foldl keep_shallowest found (dedup_homes homes ds)"
  by (induction ds arbitrary: found homes) (simp_all add: record_details_eq)

lemma process_all_foldl:
  "process_all st cs = Inr st' \<Longrightarrow> st' = foldl record_details st (probed cs)"
proof (induction cs arbitrary: st)
  case Nil
  then show ?case by (simp add: probed_def List.map_filter_simps)
next
  case (Cons c cs)
  from Cons.prems obtain st1 where st1: "process_candidate st c = Inr st1"
    and rest: "process_all st1 cs = Inr st'"
    by (auto split: sum.splits)
  have "st1 = foldl record_details st (probed [c])"
    using st1
    by (auto simp: process_candidate_def probed_def List.map_filter_simps
        split: if_splits sum.splits option.splits)
  moreover have "probed (c # cs) = probed [c] @ probed cs"
    by (simp add: probed_def List.map_filter_simps split: option.splits)
  ultimately show ?case using Cons.IH [OF rest] by simp
qed

lemma alias_inv_step:
  assumes "alias_inv found S"
  shows "alias_inv (keep_shallowest found d) (insert d S)"
proof -
  let ?k = "display_alias d"
  from assms have dist: "distinct (map fst found)"
    and vals: "\<And>k v. (k, v) \<in> set found \<Longrightarrow> k = display_alias v \<and> v \<in> S"
    and cov: "\<And>e. e \<in> S \<Longrightarrow> \<exists>v. map_of found (display_alias e) = Some v \<and> path_depth v \<le> path_depth e"
    by (auto simp: alias_inv_def)
  show ?thesis
  proof (cases "map_of found ?k")
    case None
    then have ks: "keep_shallowest found d = dict_set ?k d found"
      by (simp add: keep_shallowest_def)
    have "\<exists>v. map_of (dict_set ?k d found) (display_alias e) = Some v \<and> path_depth v \<le> path_depth e"
      if "e \<in> insert d S" for e
    proof (cases "display_alias e = ?k")
      case True
      then have "e \<notin> S" using cov [of e] None by auto
      with that have "e = d" by simp
      then show ?thesis by (simp add: map_of_dict_set)
    next
      case False
      with that have "e \<in> S" by auto
      with cov [of e] False show ?thesis by (simp add: map_of_dict_set)
    qed
    moreover have "k = display_alias v \<and> v \<in> insert d S" if "(k, v) \<in> set (dict_set ?k d found)" for k v
      using that set_dict_set [of ?k d found] vals by auto
    ultimately show ?thesis
      unfolding ks alias_inv_def using distinct_dict_set [OF dist] by auto
  next
    case (Some old)
    show ?thesis
    proof (cases "path_depth d < path_depth old")
      case True
      with Some have ks: "keep_shallowest found d = dict_set ?k d found"
        by (simp add: keep_shallowest_def)
      have "\<exists>v. map_of (dict_set ?k d found) (display_alias e) = Some v \<and> path_depth v \<le> path_depth e"
        if "e \<in> insert d S" for e
      proof (cases "display_alias e = ?k")
        case eq: True
        show ?thesis
        proof (cases "e = d")
          case True
          then show ?thesis by (simp add: map_of_dict_set)
        next
          case False
          with that have "e \<in> S" by simp
          from cov [OF this] eq Some have "path_depth old \<le> path_depth e" by simp
          with True eq show ?thesis by (simp add: map_of_dict_set)
        qed
      next
        case False
        with that have "e \<in> S" by auto
        with cov [of e] False show ?thesis by (simp add: map_of_dict_set)
      qed
      moreover have "k = display_alias v \<and> v \<in> insert d S" if "(k, v) \<in> set (dict_set ?k d found)" for k v
        using that set_dict_set [of ?k d found] vals by auto
      ultimately show ?thesis
        unfolding ks alias_inv_def using distinct_dict_set [OF dist] by auto
    next
      case False
      with Some have ks: "keep_shallowest found d = found"
        by (simp add: keep_shallowest_def)
      have "\<exists>v. map_of found (display_alias e) = Some v \<and> path_depth v \<le> path_depth e"
        if "e \<in> insert d S" for e
      proof (cases "e = d")
        case True
        with Some False show ?thesis by simp
      next
        case False
        with that cov [of e] show ?thesis by simp
      qed
      moreover have "k = display_alias v \<and> v \<in> insert d S" if "(k, v) \<in> set found" for k v
        using that vals by auto
      ultimately show ?thesis
        unfolding ks alias_inv_def using dist by auto
    qed
  qed
qed

lemma alias_inv_foldl:
  "alias_inv found S \<Longrightarrow> alias_inv (foldl keep_shallowest found ds) (S \<union> set ds)"
proof (induction ds arbitrary: found S)
  case Nil
  then show ?case by simp
next
  case (Cons d ds)
  from Cons.IH [OF alias_inv_step [OF Cons.prems, of d]] show ?case by simp
qed

lemma set_sorted_reverse: "set (sorted_reverse f xs) = set xs"
  by (simp add: sorted_reverse_def)

lemma distinct_sorted_reverse: "distinct (sorted_reverse f xs) = distinct xs"
  by (simp add: sorted_reverse_def)

lemma find_java_installations_inv:
  assumes "find_java_installations cs = Inr R"
  obtains found where "alias_inv found (set (discovered cs))"
    and "set R = snd ` set found"
proof -
  from assms obtain st where st: "process_all ([], {}) cs = Inr st"
    and R: "R = sorted_reverse major_version (map snd (fst st))"
    by (auto simp: find_java_installations_def split: sum.splits)
  have "fst st = foldl keep_shallowest [] (discovered cs)"
    using process_all_foldl [OF st] foldl_record_details [of "[]" "{}" "probed cs"]
    by (simp add: discovered_def)
  moreover have "alias_inv [] {}" by (simp add: alias_inv_def)
  ultimately have "alias_inv (fst st) (set (discovered cs))"
    using alias_inv_foldl [of "[]" "{}" "discovered cs"] by simp
  moreover have "set R = snd ` set (fst st)"
    by (simp add: R set_sorted_reverse)
  ultimately show ?thesis using that by blast
qed

text \<open>
  C1. Among the installations that pass the deduplication by symlink-resolved install
  root, whenever two share an alias (sanitized vendor plus major version) and one is
  strictly shallower, the result of \<open>find_java_installations\<close> does not contain the
  deeper one; it contains exactly one installation under that alias, a discovered one
  that is at most as deep as the shallower of the two, and the shallower one itself
  when the two are the only ones with that alias.
\<close>

theorem find_java_installations_keeps_shallowest:
  assumes "find_java_installations cs = Inr R"
    and "a \<in> set (discovered cs)" and "b \<in> set (discovered cs)"
    and "display_alias a = display_alias b"
    and "path_depth a < path_depth b"
  shows "b \<notin> set R
       \<and> (\<exists>r. r \<in> set R \<and> display_alias r = display_alias a
              \<and> (\<forall>r'. r' \<in> set R \<and> display_alias r' = display_alias a \<longrightarrow> r' = r)
              \<and> r \<in> set (discovered cs) \<and> path_depth r \<le> path_depth a
              \<and> ((\<forall>c. c \<in> set (discovered cs) \<and> display_alias c = display_alias a
                       \<longrightarrow> c = a \<or> c = b) \<longrightarrow> r = a))"
proof -
  from assms(1) obtain found where inv: "alias_inv found (set (discovered cs))"
    and R: "set R = snd ` set found"
    by (rule find_java_installations_inv)
  from inv have dist: "distinct (map fst found)"
    and vals: "\<And>k v. (k, v) \<in> set found \<Longrightarrow> k = display_alias v \<and> v \<in> set (discovered cs)"
    and cov: "\<And>e. e \<in> set (discovered cs) \<Longrightarrow>
                \<exists>v. map_of found (display_alias e) = Some v \<and> path_depth v \<le> path_depth e"
    by (auto simp: alias_inv_def)
  have uniq: "v = w" if "v \<in> set R" "w \<in> set R" "display_alias v = display_alias w" for v w
  proof -
    from that R obtain k k' where "(k, v) \<in> set found" "(k', w) \<in> set found" by auto
    moreover from this vals that(3) have "k = k'" by metis
    ultimately show ?thesis using dist by (metis map_of_is_SomeI option.inject)
  qed
  from cov [OF assms(2)] obtain r where r: "map_of found (display_alias a) = Some r"
    and ra: "path_depth r \<le> path_depth a" by blast
  from r have rf: "(display_alias a, r) \<in> set found" by (rule map_of_SomeD)
  then have rR: "r \<in> set R" using R by force
  from vals [OF rf] have ralias: "display_alias r = display_alias a"
    and rdisc: "r \<in> set (discovered cs)" by auto
  have nb: "b \<notin> set R"
  proof
    assume "b \<in> set R"
    then have "b = r" using uniq [of b r] rR ralias assms(4) by simp
    with ra assms(5) show False by simp
  qed
  have "r = a" if "\<forall>c. c \<in> set (discovered cs) \<and> display_alias c = display_alias a \<longrightarrow> c = a \<or> c = b"
    using that rdisc ralias rR nb by auto
  moreover have "r' = r" if "r' \<in> set R \<and> display_alias r' = display_alias a" for r'
    using that uniq [of r' r] rR ralias by simp
  ultimately show ?thesis using nb rR ralias rdisc ra by blast
qed

theorem find_java_installations_keeps_shallowest_witness:
  "find_java_installations
     [\<lparr>usable = True, run_result = Inr (''version '' @ [dquote] @ ''17'' @ [dquote]),
        real_java_exe = [''/'', ''opt'', ''x'', ''jdk'', ''bin'', ''java''], has_javac = True\<rparr>,
      \<lparr>usable = True, run_result = Inr (''version '' @ [dquote] @ ''17'' @ [dquote]),
        real_java_exe = [''/'', ''jdk'', ''bin'', ''java''], has_javac = False\<rparr>]
     = Inr [\<lparr>java_home = [''/'', ''jdk''], java_type = ''JRE'', version = ''17'',
             vendor = ''Unknown'', major_version = 17, display_alias = ''unknown17'',
             path_depth = 4\<rparr>]
   \<and> discovered
     [\<lparr>usable = True, run_result = Inr (''version '' @ [dquote] @ ''17'' @ [dquote]),
        real_java_exe = [''/'', ''opt'', ''x'', ''jdk'', ''bin'', ''java''], has_javac = True\<rparr>,
      \<lparr>usable = True, run_result = Inr (''version '' @ [dquote] @ ''17'' @ [dquote]),
        real_java_exe = [''/'', ''jdk'', ''bin'', ''java''], has_javac = False\<rparr>]
     = [\<lparr>java_home = [''/'', ''opt'', ''x'', ''jdk''], java_type = ''JDK'', version = ''17'',
          vendor = ''Unknown'', major_version = 17, display_alias = ''unknown17'',
          path_depth = 6\<rparr>,
        \<lparr>java_home = [''/'', ''jdk''], java_type = ''JRE'', version = ''17'',
          vendor = ''Unknown'', major_version = 17, display_alias = ''unknown17'',
          path_depth = 4\<rparr>]
   \<and> \<lparr>java_home = [''/'', ''opt'', ''x'', ''jdk''], java_type = ''JDK'', version = ''17'',
        vendor = ''Unknown'', major_version = 17, display_alias = ''unknown17'',
        path_depth = 6\<rparr>
       \<notin> set [\<lparr>java_home = [''/'', ''jdk''], java_type = ''JRE'', version = ''17'',
                vendor = ''Unknown'', major_version = 17, display_alias = ''unknown17'',
                path_depth = 4\<rparr>]"
  (is "find_java_installations ?cs = Inr [?a] \<and> discovered ?cs = [?b, ?a] \<and> ?b \<notin> set [?a]")
proof -
  have r: "find_java_installations ?cs = Inr [?a]" by code_simp
  have d: "discovered ?cs = [?b, ?a]" by code_simp
  have a: "?a \<in> set (discovered ?cs)" and b: "?b \<in> set (discovered ?cs)"
    unfolding d by simp_all
  have al: "display_alias ?a = display_alias ?b" by simp
  have dp: "path_depth ?a < path_depth ?b" by simp
  from find_java_installations_keeps_shallowest [OF r a b al dp]
  have "?b \<notin> set [?a]" by blast
  with r d show ?thesis by blast
qed

section \<open>Catalog adapters on a failed fetch\<close>









section \<open>The Forge and NeoForge indices\<close>

lemma mset_sorted_reverse: "mset (sorted_reverse f xs) = mset xs"
  by (simp add: sorted_reverse_def)

lemma sorted_reverse_descending: "sorted (rev (map f (sorted_reverse f xs)))"
  by (simp add: sorted_reverse_def rev_map)

lemma split_once_prefix:
  assumes "prefix (m @ [c]) s"
  shows "split_once c s = [takeWhile (\<lambda>x. x \<noteq> c) s, tl (dropWhile (\<lambda>x. x \<noteq> c) s)]"
proof -
  from assms have "c \<in> set s" by (auto simp: prefix_def)
  then show ?thesis by (simp add: split_once_def)
qed

lemma takeWhile_dropWhile_sep:
  "c \<in> set s \<Longrightarrow>
   s = takeWhile (\<lambda>x. x \<noteq> c) s @ c # tl (dropWhile (\<lambda>x. x \<noteq> c) s)"
  by (induction s) auto

lemma forge_version_of_Some:
  "forge_version_of mc t = Some v \<longleftrightarrow>
     (\<exists>full. t = Some full \<and> prefix (mc @ ''-'') full
        \<and> v = \<lparr>full_version = full,
                forge_mc_version = takeWhile (\<lambda>x. x \<noteq> CHR ''-'') full,
                forge_version = tl (dropWhile (\<lambda>x. x \<noteq> CHR ''-'') full)\<rparr>)"
proof (cases t)
  case None
  then show ?thesis by (simp add: forge_version_of_def)
next
  case (Some full)
  show ?thesis
  proof (cases "prefix (mc @ ''-'') full")
    case True
    then have "full \<noteq> []" by auto
    with True Some show ?thesis
      using split_once_prefix [of mc "CHR ''-''" full]
      by (auto simp: forge_version_of_def)
  next
    case False
    with Some show ?thesis by (simp add: forge_version_of_def)
  qed
qed

lemma forge_full_versions:
  "map full_version (List.map_filter (forge_version_of mc) nodes)
     = filter (prefix (mc @ ''-'')) (index_entries nodes)"
proof (induction nodes)
  case Nil
  then show ?case by (simp add: index_entries_def List.map_filter_simps)
next
  case (Cons t ts)
  show ?case
  proof (cases "forge_version_of mc t")
    case None
    then have "\<And>full. t = Some full \<Longrightarrow> \<not> prefix (mc @ ''-'') full"
      using forge_version_of_Some [of mc t] by auto
    with None Cons.IH show ?thesis
      by (cases t) (auto simp: index_entries_def List.map_filter_simps)
  next
    case (Some v)
    then obtain full where "t = Some full" "prefix (mc @ ''-'') full" "full_version v = full"
      using forge_version_of_Some [of mc t v] by auto
    moreover from this have "full \<noteq> []" by auto
    ultimately show ?thesis using Some Cons.IH
      by (simp add: index_entries_def List.map_filter_simps)
  qed
qed

lemma forge_version_parts:
  assumes "v \<in> set (List.map_filter (forge_version_of mc) nodes)"
  shows "full_version v = forge_mc_version v @ ''-'' @ forge_version v
         \<and> CHR ''-'' \<notin> set (forge_mc_version v)"
proof -
  from assms obtain t where "forge_version_of mc t = Some v"
    by (auto simp: List.map_filter_def)
  then obtain full where p: "prefix (mc @ ''-'') full"
    and v: "v = \<lparr>full_version = full,
                forge_mc_version = takeWhile (\<lambda>x. x \<noteq> CHR ''-'') full,
                forge_version = tl (dropWhile (\<lambda>x. x \<noteq> CHR ''-'') full)\<rparr>"
    using forge_version_of_Some [of mc t v] by auto
  from p have "CHR ''-'' \<in> set full" by (auto simp: prefix_def)
  from takeWhile_dropWhile_sep [OF this] have "full_version v = forge_mc_version v @ ''-'' @ forge_version v"
    by (simp add: v)
  moreover have "CHR ''-'' \<notin> set (forge_mc_version v)"
    by (auto simp: v dest: set_takeWhileD)
  ultimately show ?thesis by simp
qed

text \<open>
  C6. When the index is fetched, \<open>get_forge_versions\<close> returns exactly the entries of
  the index that start with the base version followed by \<open>-\<close> (each as often as the
  index has it), each split at its first \<open>-\<close> into base version and loader version, in
  descending order of the loader version as a string. That order is not the numeric
  one: \<open>47.2.0\<close> comes before \<open>47.10.0\<close>.
\<close>

theorem get_forge_versions_result:
  assumes "index_fetched got nodes"
  shows "(\<exists>vs. get_forge_versions mc got = (Inr vs, None)
           \<and> mset (map full_version vs)
               = mset (filter (prefix (mc @ ''-'')) (index_entries nodes))
           \<and> (\<forall>v \<in> set vs. full_version v = forge_mc_version v @ ''-'' @ forge_version v
                            \<and> CHR ''-'' \<notin> set (forge_mc_version v))
           \<and> sorted (rev (map forge_version vs)))
         \<and> get_forge_versions ''1.20.1''
             (Inr \<lparr>status_code = 200, json_body = Inl RequestsJSONDecodeError,
                   xml_versions = Inr [Some ''1.19.2-43.3.0'', Some ''1.20.1-47.10.0'', None,
                                        Some ''1.20.1-47.2.0'']\<rparr>)
            = (Inr [\<lparr>full_version = ''1.20.1-47.2.0'', forge_mc_version = ''1.20.1'',
                      forge_version = ''47.2.0''\<rparr>,
                    \<lparr>full_version = ''1.20.1-47.10.0'', forge_mc_version = ''1.20.1'',
                      forge_version = ''47.10.0''\<rparr>], None)"
proof -
  let ?vs = "sorted_reverse forge_version (List.map_filter (forge_version_of mc) nodes)"
  from assms have r: "get_forge_versions mc got = (Inr ?vs, None)"
    by (cases got)
       (auto simp: index_fetched_def get_forge_versions_def except_empty_def
          raise_for_status_def)
  have "mset (map full_version ?vs) = mset (filter (prefix (mc @ ''-'')) (index_entries nodes))"
    using forge_full_versions [of mc nodes]
    by (metis mset_map mset_sorted_reverse)
  moreover have "\<forall>v \<in> set ?vs. full_version v = forge_mc_version v @ ''-'' @ forge_version v
                            \<and> CHR ''-'' \<notin> set (forge_mc_version v)"
    using forge_version_parts [of _ mc nodes] by (simp add: set_sorted_reverse)
  moreover have "sorted (rev (map forge_version ?vs))"
    by (rule sorted_reverse_descending)
  ultimately have general: "\<exists>vs. get_forge_versions mc got = (Inr vs, None)
           \<and> mset (map full_version vs)
               = mset (filter (prefix (mc @ ''-'')) (index_entries nodes))
           \<and> (\<forall>v \<in> set vs. full_version v = forge_mc_version v @ ''-'' @ forge_version v
                            \<and> CHR ''-'' \<notin> set (forge_mc_version v))
           \<and> sorted (rev (map forge_version vs))"
    using r by blast
  have "get_forge_versions ''1.20.1''
             (Inr \<lparr>status_code = 200, json_body = Inl RequestsJSONDecodeError,
                   xml_versions = Inr [Some ''1.19.2-43.3.0'', Some ''1.20.1-47.10.0'', None,
                                        Some ''1.20.1-47.2.0'']\<rparr>)
            = (Inr [\<lparr>full_version = ''1.20.1-47.2.0'', forge_mc_version = ''1.20.1'',
                      forge_version = ''47.2.0''\<rparr>,
                    \<lparr>full_version = ''1.20.1-47.10.0'', forge_mc_version = ''1.20.1'',
                      forge_version = ''47.10.0''\<rparr>], None)"
    by code_simp
  with general show ?thesis by blast
qed

theorem get_forge_versions_result_witness:
  "\<exists>vs. get_forge_versions ''1.20.1''
          (Inr \<lparr>status_code = 200, json_body = Inl RequestsJSONDecodeError,
                xml_versions = Inr [Some ''1.20.1-47.2.0'', Some ''1.19.2-43.3.0'']\<rparr>) = (Inr vs, None)
        \<and> mset (map full_version vs) = {#''1.20.1-47.2.0''#}"
proof -
  have h: "index_fetched
             (Inr \<lparr>status_code = 200, json_body = Inl RequestsJSONDecodeError,
                   xml_versions = Inr [Some ''1.20.1-47.2.0'', Some ''1.19.2-43.3.0'']\<rparr>)
             [Some ''1.20.1-47.2.0'', Some ''1.19.2-43.3.0'']"
    by (simp add: index_fetched_def)
  have e: "filter (prefix (''1.20.1'' @ ''-''))
             (index_entries [Some ''1.20.1-47.2.0'', Some ''1.19.2-43.3.0''])
           = [''1.20.1-47.2.0'']"
    by (simp add: index_entries_def List.map_filter_simps)
  from get_forge_versions_result [OF h, of "''1.20.1''"] show ?thesis
    unfolding e by auto
qed

lemma split_on_sep: "c \<notin> set a \<Longrightarrow> split_on c (a @ c # r) = a # split_on c r"
  by (induction a) (auto split: list.splits)

lemma takeWhile_before:
  "c \<notin> set x \<Longrightarrow> y = [] \<or> hd y = c \<Longrightarrow> takeWhile (\<lambda>z. z \<noteq> c) (x @ y) = x"
  by (cases y) (auto simp: takeWhile_no_sep takeWhile_sep)

lemma base_version_parts:
  assumes "CHR ''.'' \<notin> set x" and "y = [] \<or> hd y = CHR ''.''"
  shows "2 \<le> length (split_on CHR ''.'' (''1.'' @ x @ y))"
    and "split_on CHR ''.'' (''1.'' @ x @ y) ! 1 = x"
proof -
  have s: "split_on CHR ''.'' (''1.'' @ x @ y) = ''1'' # split_on CHR ''.'' (x @ y)"
    using split_on_sep [of "CHR ''.''" "''1''" "x @ y"] by simp
  obtain q qs where q: "split_on CHR ''.'' (x @ y) = q # qs"
    using split_on_not_Nil [of "CHR ''.''" "x @ y"] by (cases "split_on CHR ''.'' (x @ y)") auto
  have "q = x"
    using hd_split_on [of "CHR ''.''" "x @ y"] takeWhile_before [OF assms] q by simp
  with s q show "2 \<le> length (split_on CHR ''.'' (''1.'' @ x @ y))"
    and "split_on CHR ''.'' (''1.'' @ x @ y) ! 1 = x" by simp_all
qed

lemma neoforge_version_of_Some:
  "neoforge_version_of x t = Some v \<longleftrightarrow>
     (\<exists>full. t = Some full \<and> prefix (x @ ''.'') full
        \<and> v = \<lparr>neo_full_version = full,
                neo_mc_version = ''1.'' @ hd (split_on CHR ''.'' full),
                neoforge_version = full\<rparr>)"
proof (cases t)
  case None
  then show ?thesis by (simp add: neoforge_version_of_def)
next
  case (Some full)
  show ?thesis
  proof (cases "prefix (x @ ''.'') full")
    case True
    then have "full \<noteq> []" by auto
    with True Some show ?thesis by (auto simp: neoforge_version_of_def)
  next
    case False
    with Some show ?thesis by (simp add: neoforge_version_of_def)
  qed
qed

lemma neoforge_full_versions:
  "map neo_full_version (List.map_filter (neoforge_version_of x) nodes)
     = filter (prefix (x @ ''.'')) (index_entries nodes)"
proof (induction nodes)
  case Nil
  then show ?case by (simp add: index_entries_def List.map_filter_simps)
next
  case (Cons t ts)
  show ?case
  proof (cases "neoforge_version_of x t")
    case None
    then have "\<And>full. t = Some full \<Longrightarrow> \<not> prefix (x @ ''.'') full"
      using neoforge_version_of_Some [of x t] by auto
    with None Cons.IH show ?thesis
      by (cases t) (auto simp: index_entries_def List.map_filter_simps)
  next
    case (Some v)
    then obtain full where "t = Some full" "prefix (x @ ''.'') full" "neo_full_version v = full"
      using neoforge_version_of_Some [of x t v] by auto
    moreover from this have "full \<noteq> []" by auto
    ultimately show ?thesis using Some Cons.IH
      by (simp add: index_entries_def List.map_filter_simps)
  qed
qed

lemma neoforge_version_fields:
  assumes "v \<in> set (List.map_filter (neoforge_version_of x) nodes)" and "CHR ''.'' \<notin> set x"
  shows "prefix (x @ ''.'') (neo_full_version v)
         \<and> neo_mc_version v = ''1.'' @ hd (split_on CHR ''.'' (neo_full_version v))
         \<and> neo_mc_version v = ''1.'' @ x
         \<and> neoforge_version v = neo_full_version v"
proof -
  from assms(1) obtain t where "neoforge_version_of x t = Some v"
    by (auto simp: List.map_filter_def)
  then obtain full where p: "prefix (x @ ''.'') full"
    and v: "v = \<lparr>neo_full_version = full,
                neo_mc_version = ''1.'' @ hd (split_on CHR ''.'' full),
                neoforge_version = full\<rparr>"
    using neoforge_version_of_Some [of x t v] by auto
  from p obtain r where "full = x @ CHR ''.'' # r" by (auto simp: prefix_def)
  then have "hd (split_on CHR ''.'' full) = x"
    using assms(2) by (simp add: hd_split_on takeWhile_sep)
  with p v show ?thesis by simp
qed

text \<open>
  C7. \<open>get_neoforge_versions\<close> matches a derived series, not the base version itself:
  for a base version \<open>1.X\<close> or \<open>1.X.Y\<close> and a fetched index it returns exactly the
  entries of the index that start with \<open>X.\<close>, each with the base version \<open>1.\<close> followed
  by the entry's first dot-separated part (which is \<open>X\<close>) and with the entry itself as
  loader version; for a base version with fewer than two dot-separated parts it returns
  the empty list.
\<close>

theorem get_neoforge_versions_result:
  "(length (split_on CHR ''.'' mc) < 2 \<longrightarrow> get_neoforge_versions mc got = (Inr [], None))
   \<and> (mc = ''1.'' @ x @ y \<and> CHR ''.'' \<notin> set x \<and> (y = [] \<or> hd y = CHR ''.'')
        \<and> index_fetched got nodes \<longrightarrow>
      (\<exists>vs. get_neoforge_versions mc got = (Inr vs, None)
         \<and> mset (map neo_full_version vs)
             = mset (filter (prefix (x @ ''.'')) (index_entries nodes))
         \<and> (\<forall>v \<in> set vs.
               neo_mc_version v = ''1.'' @ hd (split_on CHR ''.'' (neo_full_version v))
               \<and> neo_mc_version v = ''1.'' @ x
               \<and> neoforge_version v = neo_full_version v)))"
proof (intro conjI impI)
  assume "length (split_on CHR ''.'' mc) < 2"
  then show "get_neoforge_versions mc got = (Inr [], None)"
    by (simp add: get_neoforge_versions_def)
next
  assume a: "mc = ''1.'' @ x @ y \<and> CHR ''.'' \<notin> set x \<and> (y = [] \<or> hd y = CHR ''.'')
        \<and> index_fetched got nodes"
  then have x: "CHR ''.'' \<notin> set x" and y: "y = [] \<or> hd y = CHR ''.''"
    and mc: "mc = ''1.'' @ x @ y" and f: "index_fetched got nodes" by auto
  let ?vs = "sorted_reverse neo_full_version (List.map_filter (neoforge_version_of x) nodes)"
  have len: "\<not> length (split_on CHR ''.'' mc) < 2" and nth: "split_on CHR ''.'' mc ! 1 = x"
    using base_version_parts [OF x y] unfolding mc by auto
  from f have r: "get_neoforge_versions mc got = (Inr ?vs, None)"
    using len nth
    by (cases got)
       (auto simp: index_fetched_def get_neoforge_versions_def except_empty_def
          raise_for_status_def Let_def)
  have "mset (map neo_full_version ?vs) = mset (filter (prefix (x @ ''.'')) (index_entries nodes))"
    using neoforge_full_versions [of x nodes]
    by (metis mset_map mset_sorted_reverse)
  moreover have "\<forall>v \<in> set ?vs.
               neo_mc_version v = ''1.'' @ hd (split_on CHR ''.'' (neo_full_version v))
               \<and> neo_mc_version v = ''1.'' @ x
               \<and> neoforge_version v = neo_full_version v"
  proof
    fix v
    assume "v \<in> set ?vs"
    then have "v \<in> set (List.map_filter (neoforge_version_of x) nodes)"
      by (simp add: set_sorted_reverse)
    from neoforge_version_fields [OF this x]
    show "neo_mc_version v = ''1.'' @ hd (split_on CHR ''.'' (neo_full_version v))
               \<and> neo_mc_version v = ''1.'' @ x
               \<and> neoforge_version v = neo_full_version v"
      by blast
  qed
  ultimately show "\<exists>vs. get_neoforge_versions mc got = (Inr vs, None)
         \<and> mset (map neo_full_version vs)
             = mset (filter (prefix (x @ ''.'')) (index_entries nodes))
         \<and> (\<forall>v \<in> set vs.
               neo_mc_version v = ''1.'' @ hd (split_on CHR ''.'' (neo_full_version v))
               \<and> neo_mc_version v = ''1.'' @ x
               \<and> neoforge_version v = neo_full_version v)"
    using r by blast
qed

theorem get_neoforge_versions_result_witness:
  "get_neoforge_versions ''21'' (Inl KeyError) = (Inr [], None)
   \<and> (\<exists>vs. get_neoforge_versions ''1.21.1''
          (Inr \<lparr>status_code = 200, json_body = Inl RequestsJSONDecodeError,
                xml_versions = Inr [Some ''20.4.237'', Some ''21.1.77'']\<rparr>) = (Inr vs, None)
        \<and> mset (map neo_full_version vs) = {#''21.1.77''#}
        \<and> map neo_mc_version vs = [''1.21''])"
proof -
  have l: "length (split_on CHR ''.'' ''21'') < 2" by simp
  have a: "get_neoforge_versions ''21'' (Inl KeyError) = (Inr [], None)"
    using l get_neoforge_versions_result [of "''21''" "Inl KeyError"] by blast
  have h: "''1.21.1'' = ''1.'' @ ''21'' @ ''.1'' \<and> CHR ''.'' \<notin> set ''21''
           \<and> (''.1'' = [] \<or> hd ''.1'' = CHR ''.'')
           \<and> index_fetched
             (Inr \<lparr>status_code = 200, json_body = Inl RequestsJSONDecodeError,
                   xml_versions = Inr [Some ''20.4.237'', Some ''21.1.77'']\<rparr>)
             [Some ''20.4.237'', Some ''21.1.77'']"
    by (simp add: index_fetched_def)
  have e: "filter (prefix (''21'' @ ''.'')) (index_entries [Some ''20.4.237'', Some ''21.1.77''])
           = [''21.1.77'']"
    by (simp add: index_entries_def List.map_filter_simps)
  from h get_neoforge_versions_result
         [where mc = "''1.21.1''" and x = "''21''" and y = "''.1''"
            and got = "Inr \<lparr>status_code = 200, json_body = Inl RequestsJSONDecodeError,
                   xml_versions = Inr [Some ''20.4.237'', Some ''21.1.77'']\<rparr>"
            and nodes = "[Some ''20.4.237'', Some ''21.1.77'']"]
  obtain vs where r: "get_neoforge_versions ''1.21.1''
          (Inr \<lparr>status_code = 200, json_body = Inl RequestsJSONDecodeError,
                xml_versions = Inr [Some ''20.4.237'', Some ''21.1.77'']\<rparr>) = (Inr vs, None)"
    and m0: "mset (map neo_full_version vs)
             = mset (filter (prefix (''21'' @ ''.''))
                       (index_entries [Some ''20.4.237'', Some ''21.1.77'']))"
    and f: "\<forall>v \<in> set vs. neo_mc_version v = ''1.'' @ ''21''"
    by blast
  from m0 have m: "mset (map neo_full_version vs) = {#''21.1.77''#}"
    unfolding e by simp
  from m have "length vs = 1" by (metis length_map size_mset size_single)
  then obtain v where "vs = [v]" by (cases vs) auto
  with f have mv: "map neo_mc_version vs = [''1.21'']" by simp
  show ?thesis using a r m mv by (intro conjI exI [of _ vs])
qed

section \<open>The saved Java configuration\<close>

lemma saved_java_valid:
  assumes "cfg = Some (Inr text)" and "json_loads env text = Some (JObject kvs)"
    and "map_of kvs ''javaPath'' = Some (JString s)"
    and "executable_file env (path_of_str s @ [''bin'', ''java''])"
  shows "saved_java env cfg = Use_saved (path_str (path_of_str s @ [''bin'', ''java'']))"
  using assms by (simp add: saved_java_def)

lemma select_java_file_frame:
  assumes "select_java_for_version env cfg java_future choice save_default = (res, cfg', evs)"
  shows "(wrote_file evs \<longrightarrow> save_default = Some True \<and> Yes_no_asked \<in> set evs)
         \<and> (\<not> wrote_file evs \<longrightarrow> cfg' = cfg)"
  using assms
  by (auto simp: select_java_for_version_def wrote_file_def Let_def
      split: saved.splits sum.splits if_splits)

text \<open>
  C9. When \<open>java-path.json\<close> exists, decodes to an object and its \<open>javaPath\<close> names a
  directory whose \<open>bin/java\<close> is an executable file, \<open>_select_java_for_version\<close> returns
  that executable with no menu and no question, and leaves the file as it is. On every
  path through the operation the file is written only after the operator answered yes
  to the question about saving; whenever it is not written (no confirmation, quitting
  the menu, a raised exception, a valid saved path) it is left unchanged.
\<close>

theorem select_java_saved_and_frame:
  "(cfg = Some (Inr text) \<and> json_loads env text = Some (JObject kvs)
      \<and> map_of kvs ''javaPath'' = Some (JString s)
      \<and> executable_file env (path_of_str s @ [''bin'', ''java'']) \<longrightarrow>
    select_java_for_version env cfg java_future choice save_default
      = (Inr (Some (path_str (path_of_str s @ [''bin'', ''java'']))), cfg, []))
   \<and> (select_java_for_version env cfg java_future choice save_default = (res, cfg', evs) \<longrightarrow>
        (wrote_file evs \<longrightarrow> save_default = Some True \<and> Yes_no_asked \<in> set evs)
        \<and> (\<not> wrote_file evs \<longrightarrow> cfg' = cfg))"
  using saved_java_valid [of cfg "text" env kvs s]
    select_java_file_frame [of env cfg java_future choice save_default res cfg' evs]
  by (auto simp: select_java_for_version_def)

theorem select_java_saved_and_frame_witness:
  "select_java_for_version
      \<lparr>json_loads = (\<lambda>t. if t = ''{}'' then Some (JObject [(''javaPath'', JString ''/opt/jdk'')])
                             else None),
          json_dumps = (\<lambda>j. ''saved''),
          executable_file = (\<lambda>p. p = [''/'', ''opt'', ''jdk'', ''bin'', ''java''])\<rparr>
      (Some (Inr ''{}'')) (Inr []) 1 (Some True)
     = (Inr (Some ''/opt/jdk/bin/java''), Some (Inr ''{}''), [])
   \<and> select_java_for_version
      \<lparr>json_loads = (\<lambda>t. if t = ''{}'' then Some (JObject [(''javaPath'', JString ''/opt/jdk'')])
                             else None),
          json_dumps = (\<lambda>j. ''saved''),
          executable_file = (\<lambda>p. p = [''/'', ''opt'', ''jdk'', ''bin'', ''java''])\<rparr>
      None (Inr [\<lparr>java_home = [''/'', ''opt'', ''jdk''], java_type = ''JDK'', version = ''17'',
                vendor = ''Unknown'', major_version = 17, display_alias = ''unknown17'',
                path_depth = 5\<rparr>]) 1 (Some True)
     = (Inr (Some ''/opt/jdk/bin/java''), Some (Inr ''saved''),
        [Menu_shown, Yes_no_asked, Directory_made, File_written ''saved''])
   \<and> wrote_file [Menu_shown, Yes_no_asked, Directory_made, File_written ''saved'']
   \<and> Yes_no_asked \<in> set [Menu_shown, Yes_no_asked, Directory_made, File_written ''saved'']
   \<and> select_java_for_version
      \<lparr>json_loads = (\<lambda>t. if t = ''{}'' then Some (JObject [(''javaPath'', JString ''/opt/jdk'')])
                             else None),
          json_dumps = (\<lambda>j. ''saved''),
          executable_file = (\<lambda>p. p = [''/'', ''opt'', ''jdk'', ''bin'', ''java''])\<rparr>
      None (Inr [\<lparr>java_home = [''/'', ''opt'', ''jdk''], java_type = ''JDK'', version = ''17'',
                vendor = ''Unknown'', major_version = 17, display_alias = ''unknown17'',
                path_depth = 5\<rparr>]) 1 (Some False)
     = (Inr (Some ''/opt/jdk/bin/java''), None, [Menu_shown, Yes_no_asked])
   \<and> \<not> wrote_file [Menu_shown, Yes_no_asked]"
  (is "select_java_for_version ?env ?saved ?none 1 ?yes = ?r1
       \<and> select_java_for_version ?env None ?javas 1 ?yes = ?r2
       \<and> wrote_file ?evs2
       \<and> Yes_no_asked \<in> set ?evs2
       \<and> select_java_for_version ?env None ?javas 1 ?no = ?r3
       \<and> \<not> wrote_file ?evs3")
proof -
  have h: "?saved = Some (Inr ''{}'')
           \<and> json_loads ?env ''{}'' = Some (JObject [(''javaPath'', JString ''/opt/jdk'')])
           \<and> map_of [(''javaPath'', JString ''/opt/jdk'')] ''javaPath'' = Some (JString ''/opt/jdk'')
           \<and> executable_file ?env (path_of_str ''/opt/jdk'' @ [''bin'', ''java''])"
    by (simp add: path_of_str_def)
  have p: "path_str (path_of_str ''/opt/jdk'' @ [''bin'', ''java'']) = ''/opt/jdk/bin/java''"
    by (simp add: path_of_str_def path_str_def)
  have a: "select_java_for_version ?env ?saved ?none 1 ?yes = ?r1"
    using h p
      select_java_saved_and_frame
        [where cfg = ?saved and env = ?env and s = "''/opt/jdk''" and java_future = ?none
           and kvs = "[(''javaPath'', JString ''/opt/jdk'')]" and choice = 1
           and save_default = ?yes and ?text = "''{}''"]
    by simp
  have b: "select_java_for_version ?env None ?javas 1 ?yes = ?r2" by code_simp
  have c: "select_java_for_version ?env None ?javas 1 ?no = ?r3" by code_simp
  have w2: "wrote_file ?evs2" by (simp add: wrote_file_def)
  have w3: "\<not> wrote_file ?evs3" by (simp add: wrote_file_def)
  have y: "Yes_no_asked \<in> set ?evs2"
    using b w2
      select_java_saved_and_frame
        [where cfg = None and env = ?env and java_future = ?javas and choice = 1
           and save_default = ?yes and res = "Inr (Some ''/opt/jdk/bin/java'')"
           and cfg' = "Some (Inr ''saved'')" and evs = ?evs2]
    by blast
  show ?thesis using a b c w2 w3 y by (intro conjI)
qed

section \<open>Orderly shutdown of the supervised process\<close>








end
